theory Spec2Isabelle
  imports Complex_Main "HOL-Library.Multiset" "HOL-Library.Signed_Division"
begin

section \<open>Streaming statistics: the engine of maths-stats-v3.go and its predecessor\<close>

text \<open>
  The repository holds two versions of \<^verbatim>\<open>DataStreamStats\<close>:
  \<^item> \<^verbatim>\<open>maths-stats-v3.go\<close>: four mutexes, two heaps balanced through a signed counter
    (\<^verbatim>\<open>balanceCounter\<close>), a ring buffer of recent data for the percentiles and a cache;
  \<^item> an earlier file (one mutex, the heaps balanced by comparing their lengths, a fully
    sorted slice for the percentiles).
  Both are embedded below. A Go \<^verbatim>\<open>float64\<close> observation is modelled as a \<^typ>\<open>real\<close>:
  the arithmetic of the model is exact, rounding, NaN and overflow are left out (the
  observations are finite numbers). The two fields that start at an infinity
  (\<^verbatim>\<open>minVal\<close>, \<^verbatim>\<open>maxVal\<close>) have a type of their own. Go's \<^verbatim>\<open>int\<close> and \<^verbatim>\<open>int64\<close> are
  modelled as \<^typ>\<open>int\<close> without wrap-around: \<^verbatim>\<open>count\<close> and every length are bounded by
  the number of values the heaps hold in memory, far below \<open>2^63\<close>.
  A run-time panic is a value of type \<open>panic\<close>; a function that can panic returns
  \<open>panic + 'a\<close>, and the state at a panic is not modelled.
\<close>

subsection \<open>Panics, mutexes, slices\<close>

datatype panic =
    IndexOutOfRange
  | SliceBoundsOutOfRange
  | MakeSliceLenOutOfRange
  | IntegerDivideByZero
  | NilMapAssignment
  | LockBlocked
  | UnlockOfUnlocked

definition and_then :: "panic + 'a \<Rightarrow> ('a \<Rightarrow> panic + 'b) \<Rightarrow> panic + 'b" where
  "and_then m f = (case m of Inl e \<Rightarrow> Inl e | Inr v \<Rightarrow> f v)"

text \<open>
  A \<^verbatim>\<open>sync.Mutex\<close> is the boolean "held". In a sequential run, \<^verbatim>\<open>Lock\<close> on a held mutex
  never returns (the runtime stops with "all goroutines are asleep"); \<^verbatim>\<open>Unlock\<close> of a free
  mutex is a fatal error.
\<close>

definition Lock :: "bool \<Rightarrow> panic + bool" where
  "Lock m = (if m then Inl LockBlocked else Inr True)"

definition Unlock :: "bool \<Rightarrow> panic + bool" where
  "Unlock m = (if m then Inr False else Inl UnlockOfUnlocked)"

text \<open>\<^verbatim>\<open>a[i]\<close> for a Go \<^verbatim>\<open>int\<close> index, \<^verbatim>\<open>a[i] = v\<close>, and \<^verbatim>\<open>a[:n]\<close> (here always with
  \<^verbatim>\<open>cap(a) = len(a)\<close>).\<close>

definition index_at :: "'a list \<Rightarrow> int \<Rightarrow> panic + 'a" where
  "index_at a i = (if 0 \<le> i \<and> i < int (length a) then Inr (a ! nat i) else Inl IndexOutOfRange)"

definition store_at :: "'a list \<Rightarrow> int \<Rightarrow> 'a \<Rightarrow> panic + 'a list" where
  "store_at a i v = (if 0 \<le> i \<and> i < int (length a) then Inr (a[nat i := v]) else Inl IndexOutOfRange)"

definition slice_to :: "'a list \<Rightarrow> int \<Rightarrow> panic + 'a list" where
  "slice_to a n = (if 0 \<le> n \<and> n \<le> int (length a) then Inr (take (nat n) a) else Inl SliceBoundsOutOfRange)"

text \<open>Go's \<^verbatim>\<open>%\<close> on \<^verbatim>\<open>int\<close>: the remainder of the division that truncates towards zero.\<close>

definition go_rem :: "int \<Rightarrow> int \<Rightarrow> panic + int" where
  "go_rem a b = (if b = 0 then Inl IntegerDivideByZero else Inr (a smod b))"

subsection \<open>The heaps: \<^verbatim>\<open>MinHeap\<close>, \<^verbatim>\<open>MaxHeap\<close> and \<^verbatim>\<open>container/heap\<close>\<close>

text \<open>
  Both heap types are \<^verbatim>\<open>[]float64\<close> with the same \<^verbatim>\<open>Len\<close>, \<^verbatim>\<open>Swap\<close>, \<^verbatim>\<open>Peek\<close>, \<^verbatim>\<open>Push\<close> and
  \<^verbatim>\<open>Pop\<close>; they differ in \<^verbatim>\<open>Less\<close> only, which is passed as the comparison of two elements.
  \<^verbatim>\<open>Peek\<close> is written \<^verbatim>\<open>h[0]\<close> on the pointer receiver in the source; it is read as
  \<^verbatim>\<open>(*h)[0]\<close>.
\<close>

definition MinHeap_Less :: "real \<Rightarrow> real \<Rightarrow> bool" where
  "MinHeap_Less a b = (a < b)"

definition MaxHeap_Less :: "real \<Rightarrow> real \<Rightarrow> bool" where
  "MaxHeap_Less a b = (a > b)"

definition Len :: "real list \<Rightarrow> int" where
  "Len h = int (length h)"

definition Swap :: "real list \<Rightarrow> nat \<Rightarrow> nat \<Rightarrow> real list" where
  "Swap h i j = h[i := h ! j, j := h ! i]"

definition Peek :: "real list \<Rightarrow> panic + real" where
  "Peek h = index_at h 0"

definition Push :: "real list \<Rightarrow> real \<Rightarrow> real list" where
  "Push h x = h @ [x]"

definition Pop :: "real list \<Rightarrow> real \<times> real list" where
  "Pop h = (last h, butlast h)"

text \<open>
  \<^verbatim>\<open>container/heap\<close> of the Go standard library, which the engine calls:
  \<^verbatim>\<open>
  func up(h Interface, j int) {
      for {
          i := (j - 1) / 2 // parent
          if i == j || !h.Less(j, i) { break }
          h.Swap(i, j)
          j = i
      }
  }
  func down(h Interface, i0, n int) bool {
      i := i0
      for {
          j1 := 2*i + 1
          if j1 >= n || j1 < 0 { break }
          j := j1
          if j2 := j1 + 1; j2 < n && h.Less(j2, j1) { j = j2 }
          if !h.Less(j, i) { break }
          h.Swap(i, j)
          i = j
      }
      return i > i0
  }
  func Push(h Interface, x any) { h.Push(x); up(h, h.Len()-1) }
  func Pop(h Interface) any { n := h.Len() - 1; h.Swap(0, n); down(h, 0, n); return h.Pop() }
  \<close>
  The indices of \<^verbatim>\<open>up\<close> and \<^verbatim>\<open>down\<close> are natural numbers here: they stay within
  \<open>0 \<dots> Len - 1\<close>, and \<^verbatim>\<open>(0 - 1) / 2\<close> is \<open>0\<close> in Go (the division truncates) as it is on
  \<^typ>\<open>nat\<close>. \<^verbatim>\<open>heap.Pop\<close> on an empty heap panics in \<^verbatim>\<open>Swap(0, -1)\<close>.
\<close>

function up :: "(real \<Rightarrow> real \<Rightarrow> bool) \<Rightarrow> real list \<Rightarrow> nat \<Rightarrow> real list" where
  "up lt h j =
     (if (j - 1) div 2 = j \<or> \<not> lt (h ! j) (h ! ((j - 1) div 2)) then h
      else up lt (Swap h ((j - 1) div 2) j) ((j - 1) div 2))"
  by pat_completeness auto
termination
  by (relation "measure (\<lambda>(lt, h, j). j)") auto

definition down_child :: "(real \<Rightarrow> real \<Rightarrow> bool) \<Rightarrow> real list \<Rightarrow> nat \<Rightarrow> nat \<Rightarrow> nat" where
  \<comment> \<open>the \<^verbatim>\<open>j\<close> of \<^verbatim>\<open>down\<close>: the left child \<^verbatim>\<open>j1\<close>, or the right child \<^verbatim>\<open>j2\<close> when it is less\<close>
  "down_child lt h i n =
     (if 2 * i + 1 + 1 < n \<and> lt (h ! (2 * i + 1 + 1)) (h ! (2 * i + 1)) then 2 * i + 1 + 1
      else 2 * i + 1)"

function down :: "(real \<Rightarrow> real \<Rightarrow> bool) \<Rightarrow> real list \<Rightarrow> nat \<Rightarrow> nat \<Rightarrow> real list" where
  "down lt h i n =
     (if 2 * i + 1 \<ge> n then h
      else if \<not> lt (h ! down_child lt h i n) (h ! i) then h
      else down lt (Swap h i (down_child lt h i n)) (down_child lt h i n) n)"
  by pat_completeness auto
termination
  by (relation "measure (\<lambda>(lt, h, i, n). n - i)") (auto simp: down_child_def)

declare up.simps [simp del] down.simps [simp del]

definition heap_Push :: "(real \<Rightarrow> real \<Rightarrow> bool) \<Rightarrow> real list \<Rightarrow> real \<Rightarrow> real list" where
  "heap_Push lt h x = up lt (Push h x) (length (Push h x) - 1)"

definition heap_Pop :: "(real \<Rightarrow> real \<Rightarrow> bool) \<Rightarrow> real list \<Rightarrow> panic + real \<times> real list" where
  "heap_Pop lt h =
     (if h = [] then Inl IndexOutOfRange
      else Inr (Pop (down lt (Swap h 0 (length h - 1)) 0 (length h - 1))))"

subsection \<open>\<^verbatim>\<open>RingBuffer\<close>\<close>

record RingBuffer =
  data :: "real list"
  head :: int
  size_rb :: int
  cap :: int

definition NewRingBuffer :: "int \<Rightarrow> panic + RingBuffer" where
  "NewRingBuffer c =
     (if c < 0 then Inl MakeSliceLenOutOfRange
      else Inr \<lparr>data = replicate (nat c) 0, head = 0, size_rb = 0, cap = c\<rparr>)"

definition Add :: "RingBuffer \<Rightarrow> real \<Rightarrow> panic + RingBuffer" where
  "Add rb val =
     and_then (store_at (data rb) (head rb) val) (\<lambda>d.
     and_then (go_rem (head rb + 1) (cap rb)) (\<lambda>h.
       Inr (rb\<lparr>data := d, head := h,
                 size_rb := (if size_rb rb < cap rb then size_rb rb + 1 else size_rb rb)\<rparr>)))"

text \<open>
  \<^verbatim>\<open>GetSorted\<close> appends the retained prefix to a nil slice, which allocates a new array, and
  sorts that copy: the buffer is only read. \<^verbatim>\<open>sort.Float64s\<close> is the ascending sort.
\<close>

definition GetSorted :: "RingBuffer \<Rightarrow> panic + real list" where
  "GetSorted rb = and_then (slice_to (data rb) (size_rb rb)) (\<lambda>prefix. Inr (sort ([] @ prefix)))"

subsection \<open>\<^verbatim>\<open>DataStreamStats\<close> (maths-stats-v3.go)\<close>

text \<open>A \<^verbatim>\<open>float64\<close> that may be an infinity: the type of \<^verbatim>\<open>minVal\<close> and \<^verbatim>\<open>maxVal\<close>, which
  start at \<^verbatim>\<open>math.Inf(1)\<close> and \<^verbatim>\<open>math.Inf(-1)\<close>.\<close>

datatype extended = NegInf | Fin real | PosInf

fun ext_less :: "extended \<Rightarrow> extended \<Rightarrow> bool" where
  "ext_less NegInf NegInf = False"
| "ext_less NegInf b = True"
| "ext_less (Fin a) (Fin b) = (a < b)"
| "ext_less (Fin a) PosInf = True"
| "ext_less a b = False"

text \<open>A Go map is a reference that may be nil: \<open>None\<close> is the nil map, and assigning to an
  entry of a nil map panics.\<close>

type_synonym go_map = "(int \<rightharpoonup> real) option"

definition map_assign :: "go_map \<Rightarrow> int \<Rightarrow> real \<Rightarrow> panic + go_map" where
  "map_assign m k v = (case m of None \<Rightarrow> Inl NilMapAssignment | Some f \<Rightarrow> Inr (Some (f(k \<mapsto> v))))"

record CachedStats =
  mean :: real
  median :: real
  percentile :: go_map

record DataStreamStats =
  minMaxLock :: bool
  heapLock :: bool
  percentileLock :: bool
  cachedLock :: bool
  totalSum :: real
  count_ds :: int
  minVal :: extended
  maxVal :: extended
  lower :: "real list"
  upper :: "real list"
  recentData :: RingBuffer
  balanceCounter :: int
  cached :: CachedStats
  cacheUpdated :: bool
  cachePercentile :: go_map

text \<open>The constructor names six fields; the others, \<^verbatim>\<open>cached\<close> among them, keep their zero
  value, so \<^verbatim>\<open>cached.percentile\<close> is the nil map.\<close>

definition NewDataStreamStats :: "int \<Rightarrow> panic + DataStreamStats" where
  "NewDataStreamStats capacity =
     and_then (NewRingBuffer capacity) (\<lambda>rb.
       Inr \<lparr>minMaxLock = False, heapLock = False, percentileLock = False, cachedLock = False,
            totalSum = 0, count_ds = 0, minVal = PosInf, maxVal = NegInf,
            lower = [], upper = [], recentData = rb, balanceCounter = 0,
            cached = \<lparr>mean = 0, median = 0, percentile = None\<rparr>,
            cacheUpdated = False, cachePercentile = Some Map.empty\<rparr>)"

definition balanceHeaps :: "DataStreamStats \<Rightarrow> panic + DataStreamStats" where
  "balanceHeaps ds =
     (if balanceCounter ds > 1 then
        and_then (heap_Pop MaxHeap_Less (lower ds)) (\<lambda>(x, l).
          Inr (ds\<lparr>lower := l, upper := heap_Push MinHeap_Less (upper ds) x,
                  balanceCounter := balanceCounter ds - 1\<rparr>))
      else if balanceCounter ds < - 1 then
        and_then (heap_Pop MinHeap_Less (upper ds)) (\<lambda>(x, u).
          Inr (ds\<lparr>upper := u, lower := heap_Push MaxHeap_Less (lower ds) x,
                  balanceCounter := balanceCounter ds + 1\<rparr>))
      else Inr ds)"

text \<open>
  \<^verbatim>\<open>AddNumber\<close> holds \<^verbatim>\<open>minMaxLock\<close> from its first line to its return (the unlock is
  deferred) and runs the four blocks that its comments name: "Update basic stats",
  "Maintain heaps", "Add to recent data", "Invalidate cached stats".
\<close>

definition update_basic_stats :: "DataStreamStats \<Rightarrow> real \<Rightarrow> DataStreamStats" where
  "update_basic_stats ds num =
     ds\<lparr>totalSum := totalSum ds + num,
        count_ds := count_ds ds + 1,
        minVal := (if ext_less (Fin num) (minVal ds) then Fin num else minVal ds),
        maxVal := (if ext_less (maxVal ds) (Fin num) then Fin num else maxVal ds)\<rparr>"

definition maintain_heaps :: "DataStreamStats \<Rightarrow> real \<Rightarrow> panic + DataStreamStats" where
  "maintain_heaps ds num =
     and_then (Lock (heapLock ds)) (\<lambda>hl.
     and_then (if Len (lower ds) = 0 then Inr True
               else and_then (Peek (lower ds)) (\<lambda>top. Inr (num \<le> top))) (\<lambda>to_lower.
     and_then (balanceHeaps
                (if to_lower
                 then ds\<lparr>heapLock := hl, lower := heap_Push MaxHeap_Less (lower ds) num,
                         balanceCounter := balanceCounter ds + 1\<rparr>
                 else ds\<lparr>heapLock := hl, upper := heap_Push MinHeap_Less (upper ds) num,
                         balanceCounter := balanceCounter ds - 1\<rparr>)) (\<lambda>ds'.
     and_then (Unlock (heapLock ds')) (\<lambda>hl.
       Inr (ds'\<lparr>heapLock := hl\<rparr>)))))"

definition add_to_recent_data :: "DataStreamStats \<Rightarrow> real \<Rightarrow> panic + DataStreamStats" where
  "add_to_recent_data ds num =
     and_then (Lock (percentileLock ds)) (\<lambda>pl.
     and_then (Add (recentData ds) num) (\<lambda>rb.
     and_then (Unlock pl) (\<lambda>pl.
       Inr (ds\<lparr>percentileLock := pl, recentData := rb\<rparr>))))"

definition invalidate_cached_stats :: "DataStreamStats \<Rightarrow> panic + DataStreamStats" where
  "invalidate_cached_stats ds =
     and_then (Lock (cachedLock ds)) (\<lambda>cl.
     and_then (Unlock cl) (\<lambda>cl.
       Inr (ds\<lparr>cachedLock := cl, cacheUpdated := False\<rparr>)))"

definition AddNumber :: "DataStreamStats \<Rightarrow> real \<Rightarrow> panic + DataStreamStats" where
  "AddNumber ds num =
     and_then (Lock (minMaxLock ds)) (\<lambda>mm.
     and_then (maintain_heaps (update_basic_stats (ds\<lparr>minMaxLock := mm\<rparr>) num) num) (\<lambda>ds.
     and_then (add_to_recent_data ds num) (\<lambda>ds.
     and_then (invalidate_cached_stats ds) (\<lambda>ds.
     and_then (Unlock (minMaxLock ds)) (\<lambda>mm.
       Inr (ds\<lparr>minMaxLock := mm\<rparr>))))))"

text \<open>The queries return their value and the state they leave (each releases its lock on
  return).\<close>

definition GetMean :: "DataStreamStats \<Rightarrow> panic + real \<times> DataStreamStats" where
  "GetMean ds =
     and_then (Lock (minMaxLock ds)) (\<lambda>mm.
     and_then (Unlock mm) (\<lambda>mm.
       Inr (if count_ds ds = 0 then 0 else totalSum ds / real_of_int (count_ds ds),
            ds\<lparr>minMaxLock := mm\<rparr>)))"

definition GetMedian :: "DataStreamStats \<Rightarrow> panic + real \<times> DataStreamStats" where
  "GetMedian ds =
     and_then (Lock (heapLock ds)) (\<lambda>hl.
     and_then (if count_ds ds = 0 then Inr 0
               else if Len (lower ds) > Len (upper ds) then Peek (lower ds)
               else and_then (Peek (lower ds)) (\<lambda>l.
                    and_then (Peek (upper ds)) (\<lambda>u. Inr ((l + u) / 2)))) (\<lambda>r.
     and_then (Unlock hl) (\<lambda>hl.
       Inr (r, ds\<lparr>heapLock := hl\<rparr>))))"



text \<open>\<^verbatim>\<open>int(math.Ceil((p / 100) * float64(len(sorted)))) - 1\<close>, in exact arithmetic.\<close>

definition percentile_index :: "real \<Rightarrow> nat \<Rightarrow> int" where
  "percentile_index p n =
     (let index = \<lceil>(p / 100) * real n\<rceil> - 1 in if index < 0 then 0 else index)"

definition GetPercentile :: "DataStreamStats \<Rightarrow> real \<Rightarrow> panic + real \<times> DataStreamStats" where
  "GetPercentile ds p =
     and_then (Lock (percentileLock ds)) (\<lambda>pl.
     and_then (GetSorted (recentData ds)) (\<lambda>sorted_copy.
     and_then (if length sorted_copy = 0 then Inr 0
               else index_at sorted_copy (percentile_index p (length sorted_copy))) (\<lambda>r.
     and_then (Unlock pl) (\<lambda>pl.
       Inr (r, ds\<lparr>percentileLock := pl\<rparr>)))))"

definition GetCachedStats :: "DataStreamStats \<Rightarrow> panic + CachedStats \<times> DataStreamStats" where
  "GetCachedStats ds =
     and_then (Lock (cachedLock ds)) (\<lambda>cl.
     if cacheUpdated ds then
       and_then (Unlock cl) (\<lambda>cl. Inr (cached ds, ds\<lparr>cachedLock := cl\<rparr>))
     else
       and_then (GetMean (ds\<lparr>cachedLock := cl\<rparr>)) (\<lambda>(m, ds1).
       and_then (GetMedian (ds1\<lparr>cached := (cached ds1)\<lparr>mean := m\<rparr>\<rparr>)) (\<lambda>(md, ds2).
       and_then (GetPercentile (ds2\<lparr>cached := (cached ds2)\<lparr>median := md\<rparr>\<rparr>) 95) (\<lambda>(p95, ds3).
       and_then (map_assign (percentile (cached ds3)) 95 p95) (\<lambda>pm.
       and_then (GetPercentile (ds3\<lparr>cached := (cached ds3)\<lparr>percentile := pm\<rparr>\<rparr>) 99) (\<lambda>(p99, ds4).
       and_then (map_assign (percentile (cached ds4)) 99 p99) (\<lambda>pm.
       and_then (Unlock (cachedLock ds4)) (\<lambda>cl.
         Inr ((cached ds4)\<lparr>percentile := pm\<rparr>,
              ds4\<lparr>cached := (cached ds4)\<lparr>percentile := pm\<rparr>,
                  cacheUpdated := True, cachedLock := cl\<rparr>)))))))))"

text \<open>Recording a list of observations in order, on a new engine.\<close>

fun AddNumbers :: "DataStreamStats \<Rightarrow> real list \<Rightarrow> panic + DataStreamStats" where
  "AddNumbers ds [] = Inr ds"
| "AddNumbers ds (x # xs) = and_then (AddNumber ds x) (\<lambda>ds'. AddNumbers ds' xs)"

definition record_all :: "int \<Rightarrow> real list \<Rightarrow> panic + DataStreamStats" where
  "record_all capacity xs = and_then (NewDataStreamStats capacity) (\<lambda>ds. AddNumbers ds xs)"

subsection \<open>The single-mutex version of \<^verbatim>\<open>DataStreamStats\<close>\<close>

text \<open>
  The other source file declares the same type with one mutex \<^verbatim>\<open>mu\<close>, no counter and a
  sorted slice of the whole history. Its fields and functions carry the source's names
  with \<open>s_\<close> in front, or \<open>_single\<close> behind. The heap types are the same as above.
\<close>

record DataStreamStats_single =
  mu :: bool
  s_totalSum :: real
  s_count :: int
  s_minVal :: extended
  s_maxVal :: extended
  s_lower :: "real list"
  s_upper :: "real list"
  s_sorted :: "real list"

definition NewDataStreamStats_single :: DataStreamStats_single where
  "NewDataStreamStats_single =
     \<lparr>mu = False, s_totalSum = 0, s_count = 0, s_minVal = PosInf, s_maxVal = NegInf,
      s_lower = [], s_upper = [], s_sorted = []\<rparr>"

text \<open>
  \<^verbatim>\<open>sort.SearchFloat64s(a, x)\<close> is \<^verbatim>\<open>sort.Search(len(a), func(i) { return a[i] >= x })\<close>,
  the binary search of the standard library:
  \<^verbatim>\<open>
  i, j := 0, n
  for i < j {
      h := int(uint(i+j) >> 1)
      if !f(h) { i = h + 1 } else { j = h }
  }
  return i
  \<close>
\<close>

function Search_loop :: "(nat \<Rightarrow> bool) \<Rightarrow> nat \<Rightarrow> nat \<Rightarrow> nat" where
  "Search_loop f i j =
     (if i < j then
        (if \<not> f ((i + j) div 2) then Search_loop f ((i + j) div 2 + 1) j
         else Search_loop f i ((i + j) div 2))
      else i)"
  by pat_completeness auto
termination
  by (relation "measure (\<lambda>(f, i, j). j - i)") auto

declare Search_loop.simps [simp del]

definition SearchFloat64s :: "real list \<Rightarrow> real \<Rightarrow> nat" where
  "SearchFloat64s a x = Search_loop (\<lambda>i. a ! i \<ge> x) 0 (length a)"

definition AddNumber_single :: "DataStreamStats_single \<Rightarrow> real \<Rightarrow> panic + DataStreamStats_single" where
  "AddNumber_single ds num =
     and_then (Lock (mu ds)) (\<lambda>m.
     let ds = ds\<lparr>mu := m,
                 s_totalSum := s_totalSum ds + num,
                 s_count := s_count ds + 1,
                 s_minVal := (if ext_less (Fin num) (s_minVal ds) then Fin num else s_minVal ds),
                 s_maxVal := (if ext_less (s_maxVal ds) (Fin num) then Fin num else s_maxVal ds)\<rparr> in
     and_then (if Len (s_lower ds) = 0 then Inr True
               else and_then (Peek (s_lower ds)) (\<lambda>top. Inr (num \<le> top))) (\<lambda>to_lower.
     let ds = (if to_lower then ds\<lparr>s_lower := heap_Push MaxHeap_Less (s_lower ds) num\<rparr>
               else ds\<lparr>s_upper := heap_Push MinHeap_Less (s_upper ds) num\<rparr>) in
     and_then (if Len (s_lower ds) > Len (s_upper ds) + 1 then
                 and_then (heap_Pop MaxHeap_Less (s_lower ds)) (\<lambda>(x, l).
                   Inr (ds\<lparr>s_lower := l, s_upper := heap_Push MinHeap_Less (s_upper ds) x\<rparr>))
               else if Len (s_upper ds) > Len (s_lower ds) then
                 and_then (heap_Pop MinHeap_Less (s_upper ds)) (\<lambda>(x, u).
                   Inr (ds\<lparr>s_upper := u, s_lower := heap_Push MaxHeap_Less (s_lower ds) x\<rparr>))
               else Inr ds) (\<lambda>ds.
     let idx = SearchFloat64s (s_sorted ds) num;
         ds = ds\<lparr>s_sorted := take idx (s_sorted ds) @ ([num] @ drop idx (s_sorted ds))\<rparr> in
     and_then (Unlock (mu ds)) (\<lambda>m.
       Inr (ds\<lparr>mu := m\<rparr>)))))"

definition GetMedian_single :: "DataStreamStats_single \<Rightarrow> panic + real \<times> DataStreamStats_single" where
  "GetMedian_single ds =
     and_then (Lock (mu ds)) (\<lambda>m.
     and_then (if s_count ds = 0 then Inr 0
               else if Len (s_lower ds) > Len (s_upper ds) then Peek (s_lower ds)
               else and_then (Peek (s_lower ds)) (\<lambda>l.
                    and_then (Peek (s_upper ds)) (\<lambda>u. Inr ((l + u) / 2)))) (\<lambda>r.
     and_then (Unlock m) (\<lambda>m.
       Inr (r, ds\<lparr>mu := m\<rparr>))))"

fun AddNumbers_single :: "DataStreamStats_single \<Rightarrow> real list \<Rightarrow> panic + DataStreamStats_single" where
  "AddNumbers_single ds [] = Inr ds"
| "AddNumbers_single ds (x # xs) = and_then (AddNumber_single ds x) (\<lambda>ds'. AddNumbers_single ds' xs)"

definition record_all_single :: "real list \<Rightarrow> panic + DataStreamStats_single" where
  "record_all_single xs = AddNumbers_single NewDataStreamStats_single xs"

subsection \<open>The reference values of the specification\<close>

text \<open>
  What the specification compares the engine with: the median of a list by a full sort (the
  middle element for an odd length, the mean of the two middle elements for an even one, 0
  for the empty list), the arithmetic mean, and the window: the last \<open>min capacity n\<close>
  observations.
\<close>

definition true_median :: "real list \<Rightarrow> real" where
  "true_median xs =
     (let s = sort xs; n = length s in
      if n = 0 then 0
      else if odd n then s ! (n div 2)
      else (s ! (n div 2 - 1) + s ! (n div 2)) / 2)"


definition window :: "int \<Rightarrow> real list \<Rightarrow> real list" where
  "window capacity xs = (let k = min (nat capacity) (length xs) in drop (length xs - k) xs)"

subsection \<open>Running the engine\<close>

text \<open>A new engine, a list of observations recorded in order, then one query: the value the
  caller sees, or the panic.\<close>

definition returned :: "panic + 'a \<times> 's \<Rightarrow> panic + 'a" where
  "returned r = and_then r (\<lambda>(v, s). Inr v)"


definition run_GetMedian :: "int \<Rightarrow> real list \<Rightarrow> panic + real" where
  "run_GetMedian capacity xs = returned (and_then (record_all capacity xs) GetMedian)"


definition run_GetCachedStats :: "int \<Rightarrow> real list \<Rightarrow> panic + CachedStats" where
  "run_GetCachedStats capacity xs = returned (and_then (record_all capacity xs) GetCachedStats)"

definition run_heap_sizes :: "int \<Rightarrow> real list \<Rightarrow> panic + int \<times> int" where
  "run_heap_sizes capacity xs =
     and_then (record_all capacity xs) (\<lambda>ds. Inr (Len (lower ds), Len (upper ds)))"

definition run_GetMedian_single :: "real list \<Rightarrow> panic + real" where
  "run_GetMedian_single xs = returned (and_then (record_all_single xs) GetMedian_single)"

definition run_heap_sizes_single :: "real list \<Rightarrow> panic + int \<times> int" where
  "run_heap_sizes_single xs =
     and_then (record_all_single xs) (\<lambda>ds. Inr (Len (s_lower ds), Len (s_upper ds)))"

subsection \<open>Invariants of a sequential run\<close>

text \<open>
  The ring buffer after the observations \<open>xs\<close>, for a capacity \<open>c\<close>: while it is filling,
  \<open>data\<close> is \<open>xs\<close> followed by zeros and \<open>head\<close> is their number; once full, \<open>data\<close> read
  from \<open>head\<close> round to \<open>head\<close> is the last \<open>c\<close> observations, oldest first.
\<close>

definition rb_inv :: "int \<Rightarrow> real list \<Rightarrow> RingBuffer \<Rightarrow> bool" where
  "rb_inv c xs rb =
     (0 < c \<and> cap rb = c \<and> length (data rb) = nat c \<and>
      (\<exists>h. head rb = int h \<and>
        (if length xs < nat c
         then data rb = xs @ replicate (nat c - length xs) 0 \<and>
              h = length xs \<and> size_rb rb = int (length xs)
         else size_rb rb = c \<and> h < nat c \<and>
              drop h (data rb) @ take h (data rb) = drop (length xs - nat c) xs)))"

text \<open>
  The engine after the observations \<open>xs\<close>: all four mutexes free, the aggregate equal to
  sum, count, minimum and maximum of \<open>xs\<close>, the counter within \<open>-1 \<dots> 1\<close>, the two heaps
  holding \<open>length xs\<close> values with \<open>lower\<close> empty only at the start, the cache never
  valid and its map nil.
\<close>

definition engine_inv :: "int \<Rightarrow> real list \<Rightarrow> DataStreamStats \<Rightarrow> bool" where
  "engine_inv c xs ds =
     (\<not> minMaxLock ds \<and> \<not> heapLock ds \<and> \<not> percentileLock ds \<and> \<not> cachedLock ds \<and>
      totalSum ds = sum_list xs \<and>
      count_ds ds = int (length xs) \<and>
      minVal ds = (if xs = [] then PosInf else Fin (Min (set xs))) \<and>
      maxVal ds = (if xs = [] then NegInf else Fin (Max (set xs))) \<and>
      rb_inv c xs (recentData ds) \<and>
      - 1 \<le> balanceCounter ds \<and> balanceCounter ds \<le> 1 \<and>
      length (lower ds) + length (upper ds) = length xs \<and>
      (lower ds = [] \<longrightarrow> xs = [] \<and> balanceCounter ds = 0) \<and>
      \<not> cacheUpdated ds \<and> percentile (cached ds) = None)"

section \<open>Proofs\<close>

subsection \<open>The ring buffer\<close>

lemma and_then_simps [simp]:
  "and_then (Inr v) f = f v" "and_then (Inl e) f = Inl e"
  by (simp_all add: and_then_def)


lemma Lock_free [simp]: "Lock False = Inr True"
  by (simp add: Lock_def)

lemma Unlock_held [simp]: "Unlock True = Inr False"
  by (simp add: Unlock_def)

lemma smod_nonneg: "0 \<le> a \<Longrightarrow> 0 < b \<Longrightarrow> a smod b = a mod (b::int)"
  by (simp add: signed_modulo_int_def sgn_if)

lemma rb_inv_New: "0 < c \<Longrightarrow> \<exists>rb. NewRingBuffer c = Inr rb \<and> rb_inv c [] rb"
  by (simp add: NewRingBuffer_def rb_inv_def)

lemma Add_ok:
  assumes "head rb = int h" "h < length (data rb)" "cap rb = int (length (data rb))"
  shows "Add rb x = Inr (rb\<lparr>data := (data rb)[h := x],
                           head := int (Suc h mod length (data rb)),
                           size_rb := (if size_rb rb < cap rb then size_rb rb + 1 else size_rb rb)\<rparr>)"
proof -
  have "(int h + 1) smod int (length (data rb)) = (int h + 1) mod int (length (data rb))"
    by (rule smod_nonneg) (use assms(2) in auto)
  also have "\<dots> = int (Suc h mod length (data rb))"
    by (simp add: zmod_int add.commute)
  finally have "(int h + 1) smod int (length (data rb)) = int (Suc h mod length (data rb))" .
  moreover from assms(2) have "data rb \<noteq> []" by auto
  ultimately show ?thesis using assms
    by (simp add: Add_def store_at_def go_rem_def)
qed

lemma rotate_step:
  assumes "h < length d"
  shows "drop (Suc h mod length d) (d[h := x]) @ take (Suc h mod length d) (d[h := x])
         = drop 1 (drop h d @ take h d) @ [x]"
proof (cases "Suc h < length d")
  case True
  then show ?thesis using assms by (simp add: take_Suc_conv_app_nth)
next
  case False
  with assms have e: "length d = Suc h" by simp
  then have "d[h := x] = take h d @ [x]"
    by (metis drop_all le_refl lessI upd_conv_take_nth_drop)
  with e show ?thesis by simp
qed

lemma rb_inv_Add:
  assumes "rb_inv c xs rb"
  shows "\<exists>rb'. Add rb x = Inr rb' \<and> rb_inv c (xs @ [x]) rb'"
proof -
  from assms obtain h where c: "0 < c" "cap rb = c" "length (data rb) = nat c"
    and h: "head rb = int h"
    and i: "if length xs < nat c
         then data rb = xs @ replicate (nat c - length xs) 0 \<and>
              h = length xs \<and> size_rb rb = int (length xs)
         else size_rb rb = c \<and> h < nat c \<and>
              drop h (data rb) @ take h (data rb) = drop (length xs - nat c) xs"
    unfolding rb_inv_def by blast
  from i c have hl: "h < length (data rb)" by (auto split: if_splits)
  from c have cl: "cap rb = int (length (data rb))" by simp
  note A = Add_ok [OF h hl cl, of x]
  show ?thesis
  proof (cases "length xs < nat c")
    case True
    with i have d: "data rb = xs @ replicate (nat c - length xs) 0"
      and hx: "h = length xs" and s: "size_rb rb = int (length xs)" by simp_all
    from True obtain k where k: "nat c - length xs = Suc k"
      by (metis Suc_diff_Suc)
    have upd: "(data rb)[h := x] = (xs @ [x]) @ replicate k 0"
      by (simp add: d hx k list_update_append)
    have k': "nat c - Suc (length xs) = k" using k by simp
    have lc: "int (length xs) < c" using True by linarith
    have kc: "Suc (length xs + k) = nat c" using k True by linarith
    show ?thesis
    proof (cases "Suc (length xs) < nat c")
      case T2: True
      then have "Suc h mod length (data rb) = Suc (length xs)" using c hx by simp
      with T2 True c s upd k' A lc kc show ?thesis
        by (simp add: rb_inv_def)
    next
      case False
      with True have e: "nat c = Suc (length xs)" by simp
      then have m: "Suc h mod length (data rb) = 0" using c hx by simp
      from e k have "k = 0" by simp
      with e True c s upd m A lc kc show ?thesis
        by (simp add: rb_inv_def)
    qed
  next
    case False
    with i have s: "size_rb rb = c" and r: "drop h (data rb) @ take h (data rb) = drop (length xs - nat c) xs"
      by simp_all
    from False c have dr: "drop (length (xs @ [x]) - nat c) (xs @ [x]) = drop 1 (drop (length xs - nat c) xs) @ [x]"
      by (simp add: Suc_diff_le)
    have "Suc h mod length (data rb) < nat c" using c hl by simp
    with False c s A dr r rotate_step [OF hl, of x] show ?thesis
      by (simp add: rb_inv_def del: drop_Suc_Cons)
  qed
qed

subsection \<open>The heaps keep their lengths; \<^verbatim>\<open>AddNumber\<close> never panics\<close>

lemma length_Swap [simp]: "length (Swap h i j) = length h"
  by (simp add: Swap_def)

lemma length_up [simp]: "length (up lt h j) = length h"
proof (induction lt h j rule: up.induct)
  case (1 lt h j)
  then show ?case by (subst up.simps) simp
qed

lemma length_down [simp]: "length (down lt h i n) = length h"
proof (induction lt h i n rule: down.induct)
  case (1 lt h i n)
  then show ?case by (subst down.simps) simp
qed

lemma length_heap_Push [simp]: "length (heap_Push lt h x) = Suc (length h)"
  by (simp add: heap_Push_def Push_def)

lemma heap_Push_not_Nil [simp]: "heap_Push lt h x \<noteq> []"
  by (metis length_heap_Push length_0_conv nat.distinct(1))

lemma heap_Pop_ok:
  assumes "h \<noteq> []"
  shows "\<exists>x l. heap_Pop lt h = Inr (x, l) \<and> Suc (length l) = length h"
  using assms by (simp add: heap_Pop_def Pop_def)

lemma balanceHeaps_ok:
  assumes "balanceCounter ds > 1 \<longrightarrow> lower ds \<noteq> []"
    and "balanceCounter ds < - 1 \<longrightarrow> upper ds \<noteq> []"
  shows "\<exists>ds'. balanceHeaps ds = Inr ds' \<and>
           ds' = ds\<lparr>lower := lower ds', upper := upper ds', balanceCounter := balanceCounter ds'\<rparr> \<and>
           length (lower ds') + length (upper ds') = length (lower ds) + length (upper ds) \<and>
           balanceCounter ds' = (if balanceCounter ds > 1 then balanceCounter ds - 1
                                 else if balanceCounter ds < - 1 then balanceCounter ds + 1
                                 else balanceCounter ds) \<and>
           length (lower ds') = (if balanceCounter ds > 1 then length (lower ds) - 1
                                 else if balanceCounter ds < - 1 then Suc (length (lower ds))
                                 else length (lower ds))"
proof -
  consider "balanceCounter ds > 1" | "balanceCounter ds < - 1"
    | "\<not> balanceCounter ds > 1" "\<not> balanceCounter ds < - 1" by linarith
  then show ?thesis
  proof cases
    case 1
    with assms obtain x l where "heap_Pop MaxHeap_Less (lower ds) = Inr (x, l)" "Suc (length l) = length (lower ds)"
      using heap_Pop_ok by blast
    with 1 show ?thesis by (simp add: balanceHeaps_def)
  next
    case 2
    with assms obtain x u where "heap_Pop MinHeap_Less (upper ds) = Inr (x, u)" "Suc (length u) = length (upper ds)"
      using heap_Pop_ok by blast
    with 2 show ?thesis by (simp add: balanceHeaps_def)
  next
    case 3
    then show ?thesis by (simp add: balanceHeaps_def)
  qed
qed

lemma Peek_ok: "h \<noteq> [] \<Longrightarrow> Peek h = Inr (h ! 0)"
  by (simp add: Peek_def index_at_def)

lemma maintain_heaps_ok:
  assumes "\<not> heapLock ds" "- 1 \<le> balanceCounter ds" "balanceCounter ds \<le> 1"
    and "lower ds = [] \<longrightarrow> balanceCounter ds = 0"
  shows "\<exists>ds'. maintain_heaps ds num = Inr ds' \<and>
           ds' = ds\<lparr>lower := lower ds', upper := upper ds', balanceCounter := balanceCounter ds'\<rparr> \<and>
           length (lower ds') + length (upper ds') = Suc (length (lower ds) + length (upper ds)) \<and>
           - 1 \<le> balanceCounter ds' \<and> balanceCounter ds' \<le> 1 \<and> lower ds' \<noteq> []"
proof -
  define to_lower where "to_lower = (lower ds = [] \<or> num \<le> lower ds ! 0)"
  have tl: "(if Len (lower ds) = 0 then Inr True
             else and_then (Peek (lower ds)) (\<lambda>top. Inr (num \<le> top))) = Inr to_lower"
    by (auto simp: to_lower_def Len_def Peek_ok)
  define ds1 where "ds1 = (if to_lower
                 then ds\<lparr>heapLock := True, lower := heap_Push MaxHeap_Less (lower ds) num,
                         balanceCounter := balanceCounter ds + 1\<rparr>
                 else ds\<lparr>heapLock := True, upper := heap_Push MinHeap_Less (upper ds) num,
                         balanceCounter := balanceCounter ds - 1\<rparr>)"
  have m: "maintain_heaps ds num =
        and_then (balanceHeaps ds1) (\<lambda>ds'. and_then (Unlock (heapLock ds')) (\<lambda>hl. Inr (ds'\<lparr>heapLock := hl\<rparr>)))"
    using assms(1) by (simp add: maintain_heaps_def tl ds1_def)
  have p1: "balanceCounter ds1 > 1 \<longrightarrow> lower ds1 \<noteq> []"
    using assms by (auto simp: ds1_def)
  have p2: "balanceCounter ds1 < - 1 \<longrightarrow> upper ds1 \<noteq> []"
    using assms by (auto simp: ds1_def)
  from balanceHeaps_ok [OF p1 p2] obtain ds2 where
    b: "balanceHeaps ds1 = Inr ds2"
    and e: "ds2 = ds1\<lparr>lower := lower ds2, upper := upper ds2, balanceCounter := balanceCounter ds2\<rparr>"
    and l: "length (lower ds2) + length (upper ds2) = length (lower ds1) + length (upper ds1)"
    and c: "balanceCounter ds2 = (if balanceCounter ds1 > 1 then balanceCounter ds1 - 1
                                 else if balanceCounter ds1 < - 1 then balanceCounter ds1 + 1
                                 else balanceCounter ds1)"
    and ll: "length (lower ds2) = (if balanceCounter ds1 > 1 then length (lower ds1) - 1
                                 else if balanceCounter ds1 < - 1 then Suc (length (lower ds1))
                                 else length (lower ds1))"
    by blast
  have hl: "heapLock ds2" by (subst e) (simp add: ds1_def)
  have r: "maintain_heaps ds num = Inr (ds2\<lparr>heapLock := False\<rparr>)"
    by (simp add: m b hl)
  have eq: "ds2\<lparr>heapLock := False\<rparr> = ds\<lparr>lower := lower ds2, upper := upper ds2, balanceCounter := balanceCounter ds2\<rparr>"
    using assms(1) by (subst e) (simp add: ds1_def)
  have len: "length (lower ds2) + length (upper ds2) = Suc (length (lower ds) + length (upper ds))"
    using l by (simp add: ds1_def)
  have bc: "- 1 \<le> balanceCounter ds2 \<and> balanceCounter ds2 \<le> 1"
    using c assms(2,3) by (auto simp: ds1_def)
  have ne: "lower ds2 \<noteq> []"
  proof (cases to_lower)
    case True
    then have l1: "length (lower ds1) = Suc (length (lower ds))" "balanceCounter ds1 = balanceCounter ds + 1"
      by (simp_all add: ds1_def)
    show ?thesis
    proof (cases "lower ds = []")
      case True
      with assms(4) l1 ll have "length (lower ds2) = Suc 0" by simp
      then show ?thesis by auto
    next
      case False
      then have "length (lower ds) > 0" by simp
      with l1 ll assms(2) have "length (lower ds2) > 0" by (auto split: if_splits)
      then show ?thesis by auto
    qed
  next
    case False
    then have "lower ds \<noteq> []" by (auto simp: to_lower_def)
    moreover from False have "lower ds1 = lower ds" "balanceCounter ds1 = balanceCounter ds - 1"
      by (simp_all add: ds1_def)
    ultimately have "length (lower ds2) > 0" using ll assms(3) by (auto split: if_splits)
    then show ?thesis by auto
  qed
  show ?thesis
    using r eq len bc ne by simp
qed

lemma add_to_recent_data_ok:
  assumes "\<not> percentileLock ds" "rb_inv c xs (recentData ds)"
  shows "\<exists>rb. add_to_recent_data ds x = Inr (ds\<lparr>recentData := rb\<rparr>) \<and> rb_inv c (xs @ [x]) rb"
proof -
  from rb_inv_Add [OF assms(2), of x] obtain rb where
    a: "Add (recentData ds) x = Inr rb" and r: "rb_inv c (xs @ [x]) rb"
    by blast
  from assms(1) have "ds\<lparr>percentileLock := False, recentData := rb\<rparr> = ds\<lparr>recentData := rb\<rparr>"
    by (cases ds) simp
  with assms(1) a have "add_to_recent_data ds x = Inr (ds\<lparr>recentData := rb\<rparr>)"
    by (simp add: add_to_recent_data_def)
  with r show ?thesis by blast
qed

lemma invalidate_cached_stats_ok:
  "\<not> cachedLock ds \<Longrightarrow> invalidate_cached_stats ds = Inr (ds\<lparr>cacheUpdated := False\<rparr>)"
  by (cases ds) (simp add: invalidate_cached_stats_def)

lemma minVal_step:
  "(if ext_less (Fin x) (if xs = [] then PosInf else Fin (Min (set xs))) then Fin x
    else (if xs = [] then PosInf else Fin (Min (set xs)))) = Fin (Min (set (xs @ [x])))"
proof (cases "xs = []")
  case True
  then show ?thesis by simp
next
  case False
  have g: "(if ext_less (Fin x) (Fin m) then Fin x else Fin m) = Fin (min x m)" for m
    by (simp add: min_def)
  from False have e: "Min (set (xs @ [x])) = min x (Min (set xs))" by (simp add: Min_insert)
  have "(if ext_less (Fin x) (if xs = [] then PosInf else Fin (Min (set xs))) then Fin x
         else (if xs = [] then PosInf else Fin (Min (set xs))))
        = (if ext_less (Fin x) (Fin (Min (set xs))) then Fin x else Fin (Min (set xs)))"
    using False by (simp only: if_False)
  also have "\<dots> = Fin (min x (Min (set xs)))" by (rule g)
  also have "\<dots> = Fin (Min (set (xs @ [x])))" by (simp only: e)
  finally show ?thesis .
qed

lemma maxVal_step:
  "(if ext_less (if xs = [] then NegInf else Fin (Max (set xs))) (Fin x) then Fin x
    else (if xs = [] then NegInf else Fin (Max (set xs)))) = Fin (Max (set (xs @ [x])))"
proof (cases "xs = []")
  case True
  then show ?thesis by simp
next
  case False
  have g: "(if ext_less (Fin m) (Fin x) then Fin x else Fin m) = Fin (max x m)" for m
    by (simp add: max_def)
  from False have e: "Max (set (xs @ [x])) = max x (Max (set xs))" by (simp add: Max_insert)
  have "(if ext_less (if xs = [] then NegInf else Fin (Max (set xs))) (Fin x) then Fin x
         else (if xs = [] then NegInf else Fin (Max (set xs))))
        = (if ext_less (Fin (Max (set xs))) (Fin x) then Fin x else Fin (Max (set xs)))"
    using False by (simp only: if_False)
  also have "\<dots> = Fin (max x (Max (set xs)))" by (rule g)
  also have "\<dots> = Fin (Max (set (xs @ [x])))" by (simp only: e)
  finally show ?thesis .
qed

lemma AddNumber_inv:
  assumes "engine_inv c xs ds"
  shows "\<exists>ds'. AddNumber ds x = Inr ds' \<and> engine_inv c (xs @ [x]) ds'"
proof -
  define ds0 where "ds0 = update_basic_stats (ds\<lparr>minMaxLock := True\<rparr>) x"
  from assms have a: "AddNumber ds x =
     and_then (maintain_heaps ds0 x) (\<lambda>ds.
     and_then (add_to_recent_data ds x) (\<lambda>ds.
     and_then (invalidate_cached_stats ds) (\<lambda>ds.
     and_then (Unlock (minMaxLock ds)) (\<lambda>mm.
       Inr (ds\<lparr>minMaxLock := mm\<rparr>)))))"
    by (simp add: AddNumber_def engine_inv_def ds0_def)
  have h: "\<not> heapLock ds0" "- 1 \<le> balanceCounter ds0" "balanceCounter ds0 \<le> 1"
    "lower ds0 = [] \<longrightarrow> balanceCounter ds0 = 0"
    using assms by (simp_all add: engine_inv_def ds0_def update_basic_stats_def)
  from maintain_heaps_ok [OF h, of x] obtain ds1 where
    m: "maintain_heaps ds0 x = Inr ds1"
    and e1: "ds1 = ds0\<lparr>lower := lower ds1, upper := upper ds1, balanceCounter := balanceCounter ds1\<rparr>"
    and l1: "length (lower ds1) + length (upper ds1) = Suc (length (lower ds0) + length (upper ds0))"
    and b1: "- 1 \<le> balanceCounter ds1" "balanceCounter ds1 \<le> 1" and n1: "lower ds1 \<noteq> []"
    by blast
  have mn: "minVal ds0 = Fin (Min (set (xs @ [x])))"
  proof -
    have "minVal ds0 = (if ext_less (Fin x) (minVal ds) then Fin x else minVal ds)"
      by (simp add: ds0_def update_basic_stats_def)
    moreover from assms have "minVal ds = (if xs = [] then PosInf else Fin (Min (set xs)))"
      by (simp add: engine_inv_def)
    ultimately show ?thesis by (simp only: minVal_step)
  qed
  have mx: "maxVal ds0 = Fin (Max (set (xs @ [x])))"
  proof -
    have "maxVal ds0 = (if ext_less (maxVal ds) (Fin x) then Fin x else maxVal ds)"
      by (simp add: ds0_def update_basic_stats_def)
    moreover from assms have "maxVal ds = (if xs = [] then NegInf else Fin (Max (set xs)))"
      by (simp add: engine_inv_def)
    ultimately show ?thesis by (simp only: maxVal_step)
  qed
  have f0: "minMaxLock ds0" "\<not> percentileLock ds0" "\<not> cachedLock ds0" "\<not> heapLock ds0"
    "recentData ds0 = recentData ds" "totalSum ds0 = sum_list (xs @ [x])"
    "count_ds ds0 = int (length (xs @ [x]))" "percentile (cached ds0) = None"
    "\<not> cacheUpdated ds0" "length (lower ds0) + length (upper ds0) = length xs"
    using assms by (simp_all add: engine_inv_def ds0_def update_basic_stats_def)
  have f1: "minMaxLock ds1" "\<not> percentileLock ds1" "\<not> cachedLock ds1" "\<not> heapLock ds1"
    "recentData ds1 = recentData ds" "totalSum ds1 = sum_list (xs @ [x])"
    "count_ds ds1 = int (length (xs @ [x]))"
    "minVal ds1 = Fin (Min (set (xs @ [x])))" "maxVal ds1 = Fin (Max (set (xs @ [x])))"
    "percentile (cached ds1) = None"
    by (subst e1, simp add: f0 mn mx)+
  from assms have "rb_inv c xs (recentData ds1)" by (simp add: f1 engine_inv_def)
  from add_to_recent_data_ok [OF f1(2) this, of x] obtain rb where
    r: "add_to_recent_data ds1 x = Inr (ds1\<lparr>recentData := rb\<rparr>)" and ri: "rb_inv c (xs @ [x]) rb"
    by blast
  have res: "AddNumber ds x = Inr (ds1\<lparr>recentData := rb, cacheUpdated := False, minMaxLock := False\<rparr>)"
    by (simp add: a m r invalidate_cached_stats_ok f1)
  have "engine_inv c (xs @ [x]) (ds1\<lparr>recentData := rb, cacheUpdated := False, minMaxLock := False\<rparr>)"
    using f1 ri b1 n1 l1 f0(10)
    by (simp add: engine_inv_def)
  with res show ?thesis by simp
qed

lemma AddNumbers_inv:
  "engine_inv c pre ds \<Longrightarrow> \<exists>ds'. AddNumbers ds xs = Inr ds' \<and> engine_inv c (pre @ xs) ds'"
proof (induction xs arbitrary: pre ds)
  case Nil
  then show ?case by simp
next
  case (Cons x xs)
  from AddNumber_inv [OF Cons.prems, of x] obtain ds1 where
    "AddNumber ds x = Inr ds1" "engine_inv c (pre @ [x]) ds1" by blast
  with Cons.IH [of "pre @ [x]" ds1] show ?case by simp
qed

lemma record_all_inv:
  assumes "0 < c"
  shows "\<exists>ds. record_all c xs = Inr ds \<and> engine_inv c xs ds"
proof -
  from rb_inv_New [OF assms] obtain rb where n: "NewRingBuffer c = Inr rb" and r: "rb_inv c [] rb"
    by blast
  define ds0 where "ds0 = \<lparr>minMaxLock = False, heapLock = False, percentileLock = False, cachedLock = False,
            totalSum = 0, count_ds = 0, minVal = PosInf, maxVal = NegInf,
            lower = [], upper = [], recentData = rb, balanceCounter = 0,
            cached = \<lparr>mean = 0, median = 0, percentile = None\<rparr>,
            cacheUpdated = False, cachePercentile = Some Map.empty\<rparr>"
  have "engine_inv c [] ds0" using r by (simp add: engine_inv_def ds0_def)
  from AddNumbers_inv [OF this, of xs] show ?thesis
    by (simp add: record_all_def NewDataStreamStats_def n ds0_def)
qed

subsection \<open>The queries on a state that satisfies the invariants\<close>

lemma GetMean_ok:
  "\<not> minMaxLock ds \<Longrightarrow>
   GetMean ds = Inr (if count_ds ds = 0 then 0 else totalSum ds / real_of_int (count_ds ds), ds)"
  by (cases ds) (simp add: GetMean_def)



lemma GetMedian_ok:
  assumes "\<not> heapLock ds" "count_ds ds \<noteq> 0 \<longrightarrow> lower ds \<noteq> []"
  shows "GetMedian ds =
           Inr (if count_ds ds = 0 then 0
                else if length (lower ds) > length (upper ds) then lower ds ! 0
                else (lower ds ! 0 + upper ds ! 0) / 2, ds)"
proof -
  have e: "ds\<lparr>heapLock := False\<rparr> = ds" using assms(1) by (cases ds) simp
  show ?thesis
  proof (cases "count_ds ds = 0")
    case True
    with assms(1) e show ?thesis by (simp add: GetMedian_def)
  next
    case False
    with assms have l: "lower ds \<noteq> []" by simp
    show ?thesis
    proof (cases "length (lower ds) > length (upper ds)")
      case True
      with False assms(1) e l show ?thesis by (simp add: GetMedian_def Len_def Peek_ok)
    next
      case F2: False
      with l have "upper ds \<noteq> []" by auto
      with False F2 assms(1) e l show ?thesis by (simp add: GetMedian_def Len_def Peek_ok)
    qed
  qed
qed

lemma GetSorted_ok:
  "0 \<le> size_rb rb \<Longrightarrow> size_rb rb \<le> int (length (data rb)) \<Longrightarrow>
   GetSorted rb = Inr (sort (take (nat (size_rb rb)) (data rb)))"
  by (simp add: GetSorted_def slice_to_def)

lemma GetPercentile_ok:
  assumes "\<not> percentileLock ds" "GetSorted (recentData ds) = Inr w"
  shows "GetPercentile ds p =
           (if w = [] then Inr (0, ds)
            else and_then (index_at w (percentile_index p (length w))) (\<lambda>r. Inr (r, ds)))"
proof -
  have e: "ds\<lparr>percentileLock := False\<rparr> = ds" using assms(1) by (cases ds) simp
  show ?thesis
  proof (cases "index_at w (percentile_index p (length w))")
    case (Inl a)
    with assms e show ?thesis by (simp add: GetPercentile_def)
  next
    case (Inr b)
    with assms e show ?thesis by (simp add: GetPercentile_def)
  qed
qed

lemma percentile_index_range:
  assumes "0 < p" "p \<le> 100" "0 < n"
  shows "percentile_index p n = \<lceil>(p / 100) * real n\<rceil> - 1"
    and "0 \<le> percentile_index p n" and "percentile_index p n < int n"
proof -
  have pos: "0 < (p / 100) * real n" using assms by simp
  then have c1: "1 \<le> \<lceil>(p / 100) * real n\<rceil>" by (simp add: ceiling_less_iff flip: not_less)
  have "(p / 100) * real n \<le> real n" using assms by (simp add: mult_left_le_one_le)
  then have c2: "\<lceil>(p / 100) * real n\<rceil> \<le> int n" by (simp add: ceiling_le_iff)
  from c1 show "percentile_index p n = \<lceil>(p / 100) * real n\<rceil> - 1"
    by (simp add: percentile_index_def Let_def)
  with c1 c2 show "0 \<le> percentile_index p n" "percentile_index p n < int n" by simp_all
qed

lemma sort_cong_mset: "mset xs = mset ys \<Longrightarrow> sort xs = sort ys"
  by (rule properties_for_sort) simp_all

lemma rb_inv_GetSorted:
  assumes "rb_inv c xs rb"
  shows "GetSorted rb = Inr (sort (window c xs))"
proof -
  from assms obtain h where c: "0 < c" "cap rb = c" "length (data rb) = nat c"
    and i: "if length xs < nat c
         then data rb = xs @ replicate (nat c - length xs) 0 \<and>
              h = length xs \<and> size_rb rb = int (length xs)
         else size_rb rb = c \<and> h < nat c \<and>
              drop h (data rb) @ take h (data rb) = drop (length xs - nat c) xs"
    unfolding rb_inv_def by blast
  show ?thesis
  proof (cases "length xs < nat c")
    case True
    with i have "data rb = xs @ replicate (nat c - length xs) 0" "size_rb rb = int (length xs)"
      by simp_all
    with True c show ?thesis
      by (simp add: GetSorted_def slice_to_def window_def min_def)
  next
    case False
    with i have s: "size_rb rb = c" and r: "drop h (data rb) @ take h (data rb) = drop (length xs - nat c) xs"
      by simp_all
    have "mset (data rb) = mset (drop h (data rb) @ take h (data rb))"
      by (metis append_take_drop_id mset_append union_commute)
    with r have "mset (data rb) = mset (window c xs)" using False by (simp add: window_def min_def)
    then have "sort (data rb) = sort (window c xs)" by (rule sort_cong_mset)
    with s c show ?thesis by (simp add: GetSorted_def slice_to_def)
  qed
qed

lemma GetCachedStats_panics:
  assumes "engine_inv c xs ds"
  shows "GetCachedStats ds = Inl NilMapAssignment"
proof -
  define ds1 where "ds1 = ds\<lparr>cachedLock := True\<rparr>"
  from assms have l: "\<not> cachedLock ds" "\<not> cacheUpdated ds" by (simp_all add: engine_inv_def)
  from assms have m: "\<not> minMaxLock ds1" by (simp add: engine_inv_def ds1_def)
  obtain v1 where g1: "GetMean ds1 = Inr (v1, ds1)" using GetMean_ok [OF m] by blast
  define ds2 where "ds2 = ds1\<lparr>cached := (cached ds1)\<lparr>mean := v1\<rparr>\<rparr>"
  from assms have h: "\<not> heapLock ds2" "count_ds ds2 \<noteq> 0 \<longrightarrow> lower ds2 \<noteq> []"
    by (auto simp: engine_inv_def ds1_def ds2_def)
  obtain v2 where g2: "GetMedian ds2 = Inr (v2, ds2)" using GetMedian_ok [OF h] by blast
  define ds3 where "ds3 = ds2\<lparr>cached := (cached ds2)\<lparr>median := v2\<rparr>\<rparr>"
  from assms have p: "\<not> percentileLock ds3" and r: "rb_inv c xs (recentData ds3)"
    and n: "percentile (cached ds3) = None"
    by (simp_all add: engine_inv_def ds1_def ds2_def ds3_def)
  note s = rb_inv_GetSorted [OF r]
  have "\<exists>v3. GetPercentile ds3 95 = Inr (v3, ds3)"
  proof (cases "window c xs = []")
    case True
    with GetPercentile_ok [OF p s, of 95] show ?thesis by simp
  next
    case False
    then have "0 < length (sort (window c xs))" by simp
    from percentile_index_range(2,3) [OF _ _ this, of 95]
    have "0 \<le> percentile_index 95 (length (sort (window c xs)))"
      "percentile_index 95 (length (sort (window c xs))) < int (length (sort (window c xs)))"
      by simp_all
    with False show ?thesis using GetPercentile_ok [OF p s, of 95]
      by (simp add: index_at_def)
  qed
  then obtain v3 where g3: "GetPercentile ds3 95 = Inr (v3, ds3)" by blast
  show ?thesis
    using l g1 g2 g3 n
    by (simp add: GetCachedStats_def map_assign_def ds1_def [symmetric] ds2_def [symmetric]
        ds3_def [symmetric])
qed


subsection \<open>Percentiles: the sorted window and the index\<close>











lemma percentile_index_mono:
  assumes "p1 \<le> p2"
  shows "percentile_index p1 n \<le> percentile_index p2 n"
proof -
  define x where "x = (p1 / 100) * real n"
  define y where "y = (p2 / 100) * real n"
  have "x \<le> y" using assms by (simp add: x_def y_def mult_right_mono)
  then have c: "\<lceil>x\<rceil> \<le> \<lceil>y\<rceil>" by (rule ceiling_mono)
  have g: "a \<le> b \<Longrightarrow> (if a - 1 < 0 then 0 else a - 1) \<le> (if b - 1 < 0 then 0 else b - 1)"
    for a b :: int by auto
  show ?thesis unfolding percentile_index_def Let_def x_def [symmetric] y_def [symmetric]
    by (rule g) (rule c)
qed

section \<open>The claims\<close>

subsection \<open>C1: the median of the whole history\<close>

text \<open>
  Claim C1: for every sequence of observations recorded via \<^verbatim>\<open>AddNumber\<close>, \<^verbatim>\<open>GetMedian\<close>
  returns the true median of all values recorded so far (the middle element of the full
  ascending sort for an odd count, the mean of the two middle elements for an even count),
  and 0 when nothing has been recorded.

  The engine of maths-stats-v3.go does not do this. On the specification's own example,
  capacity 3 and the observations 5, 1, 9, 2, the true median is 3.5 and \<^verbatim>\<open>GetMedian\<close>
  returns 1.5: the heaps end as \<open>lower = [1]\<close>, \<open>upper = [2, 9, 5]\<close>. \<^verbatim>\<open>balanceHeaps\<close> moves
  one element, which changes the difference of the lengths by two, and adjusts
  \<^verbatim>\<open>balanceCounter\<close> by one, so the counter no longer is the difference it is compared as.
  The single-mutex version, which compares the two lengths, returns 3.5.
\<close>

theorem GetMedian_differs_from_true_median:
  "run_GetMedian 3 [5, 1, 9, 2] = Inr (3 / 2) \<and>
   true_median [5, 1, 9, 2] = 7 / 2 \<and>
   run_GetMedian_single [5, 1, 9, 2] = Inr (7 / 2)"
  by code_simp

subsection \<open>C2: the balance of the two heaps\<close>

text \<open>
  Claim C2: after every \<^verbatim>\<open>AddNumber\<close> call on an engine built by \<^verbatim>\<open>NewDataStreamStats\<close>,
  the sizes of the lower and the upper heap differ by at most 1, and every value of the
  lower heap is at most every value of the upper heap.

  The sizes do not stay within 1 in maths-stats-v3.go: after 4, 3, 2, 1 the lower heap holds
  one value and the upper heap three. The single-mutex version holds two and two.
\<close>

theorem heap_sizes_differ_by_two:
  "run_heap_sizes 3 [4, 3, 2, 1] = Inr (1, 3) \<and>
   run_heap_sizes_single [4, 3, 2, 1] = Inr (2, 2)"
  by code_simp

subsection \<open>C3: the cache\<close>

text \<open>
  Claim C3: a \<^verbatim>\<open>GetCachedStats\<close> call that finds the cache invalid recomputes the mean, the
  median and the 95th and 99th percentiles, stores them, marks the cache valid and
  returns the fresh values; one that finds it valid returns the stored snapshot.

  In maths-stats-v3.go the recomputation never completes: \<^verbatim>\<open>cached.percentile\<close> is the nil
  map (the constructor allocates \<^verbatim>\<open>cachePercentile\<close>, a field that is never read), and
  \<^verbatim>\<open>ds.cached.percentile[95] = ...\<close> panics. With one observation recorded:
\<close>

theorem GetCachedStats_nil_map_panic:
  "run_GetCachedStats 3 [1] = Inl NilMapAssignment"
proof -
  obtain ds where "record_all 3 [1] = Inr ds" "engine_inv 3 [1] ds"
    using record_all_inv [of 3 "[1]"] by auto
  then show ?thesis
    by (simp add: run_GetCachedStats_def returned_def GetCachedStats_panics)
qed

subsection \<open>C5: the counter against the comparison of the sizes\<close>

text \<open>
  Claim C5: rebalancing through the signed counter (maths-stats-v3.go) is equivalent to
  rebalancing by comparing the two heap sizes after the insertion (the single-mutex
  version): for every input both yield the same sizes of the two heaps and the same
  \<^verbatim>\<open>GetMedian\<close>.

  They differ on 3, 2, 1: the counter leaves one value in \<open>lower\<close> and two in \<open>upper\<close> and
  the median 1.5, the comparison of the sizes leaves two and one and the median 2.
\<close>

theorem counter_and_size_balancing_differ:
  "run_heap_sizes 3 [3, 2, 1] = Inr (1, 2) \<and>
   run_heap_sizes_single [3, 2, 1] = Inr (2, 1) \<and>
   run_GetMedian 3 [3, 2, 1] = Inr (3 / 2) \<and>
   run_GetMedian_single [3, 2, 1] = Inr 2"
  by code_simp

subsection \<open>C6: mean, minimum and maximum\<close>





subsection \<open>C7: the percentile of the window\<close>



subsection \<open>C8: percentiles are monotone in the rank\<close>

text \<open>
  Claim C8: for every fixed engine state with a non-empty window and all ranks
  \<open>p1 \<le> p2\<close> in \<open>(0, 100]\<close>, \<^verbatim>\<open>GetPercentile(p1) \<le> GetPercentile(p2)\<close>.

  It holds in every state whose \<^verbatim>\<open>percentileLock\<close> is free and whose ring buffer retains
  between 1 and \<^verbatim>\<open>len(data)\<close> values: both calls return, leave the state as it is, and
  their values are in this order.
\<close>

theorem percentile_monotone:
  assumes "\<not> percentileLock ds"
    and "0 < size_rb (recentData ds)"
    and "size_rb (recentData ds) \<le> int (length (data (recentData ds)))"
    and "0 < p1" and "p1 \<le> p2" and "p2 \<le> 100"
  shows "\<exists>v1 v2. GetPercentile ds p1 = Inr (v1, ds) \<and> GetPercentile ds p2 = Inr (v2, ds) \<and> v1 \<le> v2"
proof -
  define w where "w = sort (take (nat (size_rb (recentData ds))) (data (recentData ds)))"
  from assms(2,3) have g: "GetSorted (recentData ds) = Inr w"
    by (simp add: w_def GetSorted_ok)
  from assms(2,3) have n: "0 < length w" by (simp add: w_def)
  then have ne: "w \<noteq> []" by simp
  from assms(4-6) have p1: "0 < p1" "p1 \<le> 100" and p2: "0 < p2" "p2 \<le> 100" by simp_all
  note r1 = percentile_index_range(2,3) [OF p1 n]
  note r2 = percentile_index_range(2,3) [OF p2 n]
  from r1 ne have q1: "GetPercentile ds p1 = Inr (w ! nat (percentile_index p1 (length w)), ds)"
    by (simp add: GetPercentile_ok [OF assms(1) g] index_at_def)
  from r2 ne have q2: "GetPercentile ds p2 = Inr (w ! nat (percentile_index p2 (length w)), ds)"
    by (simp add: GetPercentile_ok [OF assms(1) g] index_at_def)
  have "sorted w" by (simp add: w_def)
  moreover have "nat (percentile_index p1 (length w)) \<le> nat (percentile_index p2 (length w))"
    using percentile_index_mono [OF assms(5), of "length w"] by simp
  moreover have "nat (percentile_index p2 (length w)) < length w" using r2 by simp
  ultimately have "w ! nat (percentile_index p1 (length w)) \<le> w ! nat (percentile_index p2 (length w))"
    by (rule sorted_nth_mono)
  with q1 q2 show ?thesis by blast
qed

theorem percentile_monotone_witness:
  "\<exists>ds. record_all 3 [5, 1, 9, 2] = Inr ds \<and>
      \<not> percentileLock ds \<and> 0 < size_rb (recentData ds) \<and>
      size_rb (recentData ds) \<le> int (length (data (recentData ds))) \<and>
      0 < (50::real) \<and> (50::real) \<le> 99 \<and> (99::real) \<le> 100 \<and>
      (\<exists>v1 v2. GetPercentile ds 50 = Inr (v1, ds) \<and> GetPercentile ds 99 = Inr (v2, ds) \<and> v1 \<le> v2)"
proof -
  from record_all_inv [of 3 "[5, 1, 9, 2]"] obtain ds where
    r: "record_all 3 [5, 1, 9, 2] = Inr ds" and i: "engine_inv 3 [5, 1, 9, 2] ds" by auto
  from i have l: "\<not> percentileLock ds" and b: "rb_inv 3 [5, 1, 9, 2] (recentData ds)"
    by (simp_all add: engine_inv_def)
  from b have s: "0 < size_rb (recentData ds)"
    "size_rb (recentData ds) \<le> int (length (data (recentData ds)))"
    by (auto simp: rb_inv_def)
  have p: "0 < (50::real)" "(50::real) \<le> 99" "(99::real) \<le> 100" by simp_all
  from percentile_monotone [OF l s p] r l s show ?thesis by simp
qed

subsection \<open>C9: ranks outside \<open>(0, 100]\<close>\<close>




subsection \<open>C10: the queries leave the engine as it is\<close>










end
